theory Spec2Isabelle
  imports Main "HOL-Library.Word"
begin

section \<open>Go primitives used by ringslice\<close>

text \<open>
  The package works on \<open>int64\<close> positions and lap counters and on Go slices. The lap
  counters are 64-bit words: they wrap around as \<open>int64\<close> does and are compared as signed
  numbers (\<open><s\<close>). A write longer than the storage adds \<open>n / size\<close> laps in one call, so
  the wrap is within the reach of a program. The positions, the size and the lengths are
  integers: every sum the code forms of them is at most twice the size of the storage,
  which stays below \<open>2^63\<close> for a storage of up to \<open>2^62\<close> slots. Everything else that the
  Go runtime checks is written out: a slice expression or an index out of range and an
  integer division by zero are the outcome \<open>Panic\<close>.
\<close>

text \<open>Go's \<open>/\<close> and \<open>%\<close> on signed integers truncate towards zero.\<close>

definition quo :: "int \<Rightarrow> int \<Rightarrow> int" where
  "quo a b = sgn a * sgn b * (\<bar>a\<bar> div \<bar>b\<bar>)"

definition rem :: "int \<Rightarrow> int \<Rightarrow> int" where
  "rem a b = sgn a * (\<bar>a\<bar> mod \<bar>b\<bar>)"

text \<open>\<open>s[lo:]\<close>, \<open>s[lo:hi]\<close> and \<open>s[i]\<close> on a slice whose capacity is its length.\<close>

definition go_slice_from :: "'a list \<Rightarrow> int \<Rightarrow> 'a list option" where
  "go_slice_from s lo =
     (if 0 \<le> lo \<and> lo \<le> int (length s) then Some (drop (nat lo) s) else None)"

definition go_slice :: "'a list \<Rightarrow> int \<Rightarrow> int \<Rightarrow> 'a list option" where
  "go_slice s lo hi =
     (if 0 \<le> lo \<and> lo \<le> hi \<and> hi \<le> int (length s)
      then Some (take (nat (hi - lo)) (drop (nat lo) s)) else None)"

definition go_index :: "'a list \<Rightarrow> int \<Rightarrow> 'a option" where
  "go_index s i = (if 0 \<le> i \<and> i < int (length s) then Some (s ! nat i) else None)"

text \<open>
  \<open>copy(dst, src)\<close> overwrites the first \<open>min (len dst) (len src)\<close> elements of \<open>dst\<close>;
  the result is the new contents of \<open>dst\<close>.
\<close>

definition go_copy :: "'a list \<Rightarrow> 'a list \<Rightarrow> 'a list" where
  "go_copy dst src = take (length dst) src @ drop (length src) dst"

section \<open>Data model\<close>

datatype error = ErrSize | ErrClosedPipe | ErrStaleReader | EOF | ErrFuture

text \<open>
  A call either panics, or parks its goroutine on a condition variable or wait group (the
  state it is parked in is kept), or returns a new state, a value and an optional error.
\<close>

datatype ('s, 'v) outcome = Panic | Parked 's | Return 's 'v "error option"

text \<open>
  \<open>Writer[T]\<close>: the storage, its size, the write position and the lap counter, the closed
  flag, and the counter of the wait group (the readers not closed yet).
\<close>

record 'a Writer =
  w_data :: "'a list"
  w_size :: int
  wPos :: int
  w_cycle :: "64 word"
  w_closed :: bool
  w_wg :: int

text \<open>
  \<open>Reader[T]\<close>. The pointer \<open>w\<close> to the writer is not a field of the model: every
  operation of a reader takes the writer it points to as an argument.
\<close>

record Reader =
  rPos :: int
  r_cycle :: "64 word"
  block :: bool
  autoSkip :: bool
  r_closed :: nat

section \<open>The writer\<close>

text \<open>\<open>New\<close>; \<open>make([]T, size)\<close> fills the storage with the zero value of \<open>T\<close>.\<close>

definition New :: "'a \<Rightarrow> int \<Rightarrow> error + 'a Writer" where
  "New zero sz =
     (if sz \<le> 0 then Inl ErrSize
      else Inr \<lparr>w_data = replicate (nat sz) zero, w_size = sz, wPos = 0, w_cycle = 0,
                w_closed = False, w_wg = 0\<rparr>)"

text \<open>The rewind shared by \<open>Reader\<close> and \<open>BlockingReader\<close>.\<close>

definition rewind :: "'a Writer \<Rightarrow> 64 word \<times> int" where
  "rewind w = (if 0 <s w_cycle w then (w_cycle w - 1, wPos w) else (w_cycle w, 0))"

definition Reader :: "'a Writer \<Rightarrow> ('a Writer \<times> Reader) option" where
  "Reader w =
     (if w_closed w then None
      else let (cycle, pos) = rewind w in
        Some (w\<lparr>w_wg := w_wg w + 1\<rparr>,
              \<lparr>rPos = pos, r_cycle = cycle, block = False, autoSkip = False, r_closed = 0\<rparr>))"

definition BlockingReader :: "'a Writer \<Rightarrow> ('a Writer \<times> Reader) option" where
  "BlockingReader w =
     (if w_closed w then None
      else let (cycle, pos) = rewind w in
        Some (w\<lparr>w_wg := w_wg w + 1\<rparr>,
              \<lparr>rPos = pos, r_cycle = cycle, block = True, autoSkip = False, r_closed = 0\<rparr>))"

definition BlockingCurrentReader :: "'a Writer \<Rightarrow> ('a Writer \<times> Reader) option" where
  "BlockingCurrentReader w =
     (if w_closed w then None
      else Some (w\<lparr>w_wg := w_wg w + 1\<rparr>,
                 \<lparr>rPos = wPos w, r_cycle = w_cycle w, block = True, autoSkip = False,
                  r_closed = 0\<rparr>))"

text \<open>
  The first block of \<open>Write\<close>: a write longer than the storage advances the lap counter
  by \<open>n / size - 1\<close>, adds \<open>n % size\<close> to the write position and keeps the last \<open>size\<close>
  values. \<open>None\<close> is a panic (division by zero, slice bounds).
\<close>

definition oversized :: "'a Writer \<Rightarrow> 'a list \<Rightarrow> ('a Writer \<times> 'a list) option" where
  "oversized w vals =
     (let n = int (length vals) in
      if n > w_size w then
        (if w_size w = 0 then None
         else let cnt = quo n (w_size w);
                  w1 = w\<lparr>w_cycle := w_cycle w + word_of_int (cnt - 1)\<rparr>;
                  w2 = w1\<lparr>wPos := wPos w1 + rem n (w_size w1)\<rparr>
              in map_option (Pair w2) (go_slice_from vals (n - w_size w2)))
      else Some (w, vals))"

text \<open>
  The second block: the copy to the end of the storage, the copy of what is left to its
  start, and the lap counter.
\<close>

definition copy_in :: "'a Writer \<Rightarrow> 'a list \<Rightarrow> 'a Writer option" where
  "copy_in w vals =
     (let remain = w_size w - wPos w in
      case go_slice_from (w_data w) (wPos w) of
        None \<Rightarrow> None
      | Some dst \<Rightarrow>
          let w1 = w\<lparr>w_data := take (nat (wPos w)) (w_data w) @ go_copy dst vals\<rparr> in
          if int (length vals) > remain then
            map_option (\<lambda>src. w1\<lparr>w_data := go_copy (w_data w1) src, w_cycle := w_cycle w1 + 1\<rparr>)
              (go_slice_from vals remain)
          else if int (length vals) = remain then Some (w1\<lparr>w_cycle := w_cycle w1 + 1\<rparr>)
          else Some w1)"

definition Write :: "'a Writer \<Rightarrow> 'a list \<Rightarrow> ('a Writer, int) outcome" where
  "Write w vals =
     (let n = int (length vals) in
      if w_closed w then Return w 0 (Some ErrClosedPipe)
      else case oversized w vals of
        None \<Rightarrow> Panic
      | Some (w1, vals1) \<Rightarrow>
          (case copy_in w1 vals1 of
             None \<Rightarrow> Panic
           | Some w2 \<Rightarrow>
               if w_size w2 = 0 then Panic
               else Return (w2\<lparr>wPos := rem (wPos w2 + int (length vals1)) (w_size w2)\<rparr>)
                      n None))"

definition Append :: "'a Writer \<Rightarrow> 'a list \<Rightarrow> ('a Writer, int) outcome" where
  "Append w vals = Write w vals"

definition Size :: "'a Writer \<Rightarrow> int" where
  "Size w = w_size w"

definition TotalWritten :: "'a Writer \<Rightarrow> 64 word" where
  "TotalWritten w = w_cycle w * word_of_int (w_size w) + word_of_int (wPos w)"

text \<open>
  \<open>Writer.Close\<close>: a second call returns at once; the first sets the flag and waits for the
  wait group, so it is parked as long as a reader is open.
\<close>

definition Close_Writer :: "'a Writer \<Rightarrow> ('a Writer, unit) outcome" where
  "Close_Writer w =
     (if w_closed w then Return w () None
      else let w1 = w\<lparr>w_closed := True\<rparr> in
        if w_wg w1 > 0 then Parked w1 else Return w1 () None)"

section \<open>The reader\<close>

text \<open>
  The wait loop at the head of \<open>Read\<close> and \<open>ReadOne\<close>. A blocking reader with nothing to
  read stops blocking when the writer is closed and otherwise waits on the condition
  variable (\<open>None\<close>): it stays there until a write or a close wakes it, and then evaluates
  the loop condition on the new state of the writer.
\<close>

definition wait_for_data :: "'a Writer \<Rightarrow> Reader \<Rightarrow> Reader option" where
  "wait_for_data w r =
     (if block r \<and> r_cycle r = w_cycle w \<and> rPos r \<ge> wPos w
      then (if w_closed w then Some (r\<lparr>block := False\<rparr>) else None)
      else Some r)"

text \<open>The reader after \<open>rPos = 0; cycle += 1\<close>.\<close>

definition wrapped :: "Reader \<Rightarrow> Reader" where
  "wrapped r = r\<lparr>rPos := 0, r_cycle := r_cycle r + 1\<rparr>"

text \<open>
  \<open>Read\<close>. The destination \<open>p\<close> is passed with its contents and returned with its new
  contents. The call \<open>r.Read(p[avail:])\<close> is the recursion of the model. Nothing in the
  code bounds its depth for every state of the two records (with auto-skip, a destination
  that is not empty, the lap counter at its least value and the write position at the end
  of the storage, the call recurs for ever), so the model is a partial function: \<open>None\<close>
  is a call that does not return.
\<close>

partial_function (option) Read ::
    "'a Writer \<Rightarrow> Reader \<Rightarrow> 'a list \<Rightarrow> (Reader \<times> 'a list, int) outcome option" where
  "Read w r p =
     (if r_closed r > 0 then Some (Return (r, p) 0 (Some ErrClosedPipe))
      else let n = int (length p) in
        case wait_for_data w r of
          None \<Rightarrow> Some (Parked (r, p))
        | Some r1 \<Rightarrow>
            if r_cycle r1 <s w_cycle w - 1 \<and> \<not> autoSkip r1
            then Some (Return (r1, p) 0 (Some ErrStaleReader))
            else let r2 = (if r_cycle r1 <s w_cycle w - 1
                           then r1\<lparr>r_cycle := w_cycle w - 1, rPos := wPos w\<rparr> else r1) in
              if r_cycle r2 = w_cycle w - 1 then
                (if wPos w > rPos r2 \<and> \<not> autoSkip r2
                 then Some (Return (r2, p) 0 (Some ErrStaleReader))
                 else let r3 = (if wPos w > rPos r2 then r2\<lparr>rPos := wPos w\<rparr> else r2);
                          avail = w_size w - rPos r3 in
                   if avail \<ge> n then
                     (case go_slice (w_data w) (rPos r3) (rPos r3 + n) of
                        None \<Rightarrow> Some Panic
                      | Some src \<Rightarrow>
                          let r4 = r3\<lparr>rPos := rPos r3 + n\<rparr>;
                              r5 = (if rPos r4 \<ge> w_size w then wrapped r4 else r4)
                          in Some (Return (r5, go_copy p src) n None))
                   else
                     (case go_slice_from (w_data w) (rPos r3) of
                        None \<Rightarrow> Some Panic
                      | Some src \<Rightarrow>
                          (case go_slice_from (go_copy p src) avail of
                             None \<Rightarrow> Some Panic
                           | Some rest \<Rightarrow>
                               Option.bind (Read w (wrapped r3) rest)
                                 (\<lambda>res. Some (case res of
                                    Panic \<Rightarrow> Panic
                                  | Parked (r', rest') \<Rightarrow>
                                      Parked (r', take (nat avail) (go_copy p src) @ rest')
                                  | Return (r', rest') nextN err \<Rightarrow>
                                      Return (r', take (nat avail) (go_copy p src) @ rest')
                                        (avail + nextN) err)))))
              else if r_cycle r2 \<noteq> w_cycle w then Some (Return (r2, p) 0 (Some ErrFuture))
              else if rPos r2 \<ge> wPos w then Some (Return (r2, p) 0 (Some EOF))
              else let avail = wPos w - rPos r2;
                       n' = (if n > avail then avail else n) in
                (case go_slice (w_data w) (rPos r2) (rPos r2 + n') of
                   None \<Rightarrow> Some Panic
                 | Some src \<Rightarrow> Some (Return (r2\<lparr>rPos := rPos r2 + n'\<rparr>, go_copy p src) n' None)))"

text \<open>
  \<open>ReadOne\<close>. The helper \<open>empty[T]()\<close> is not among the sources at hand; it yields the zero
  value of \<open>T\<close>, which the model takes as the parameter \<open>zero\<close>.
\<close>

definition ReadOne :: "'a \<Rightarrow> 'a Writer \<Rightarrow> Reader \<Rightarrow> (Reader, 'a) outcome" where
  "ReadOne zero w r =
     (if r_closed r > 0 then Return r zero (Some ErrClosedPipe)
      else
        case wait_for_data w r of
          None \<Rightarrow> Parked r
        | Some r1 \<Rightarrow>
            if r_cycle r1 <s w_cycle w - 1 \<and> \<not> autoSkip r1
            then Return r1 zero (Some ErrStaleReader)
            else let r2 = (if r_cycle r1 <s w_cycle w - 1
                           then r1\<lparr>r_cycle := w_cycle w - 1, rPos := wPos w\<rparr> else r1) in
              if r_cycle r2 = w_cycle w - 1 then
                (if wPos w > rPos r2 \<and> \<not> autoSkip r2
                 then Return r2 zero (Some ErrStaleReader)
                 else let r3 = (if wPos w > rPos r2 then r2\<lparr>rPos := wPos w\<rparr> else r2);
                          avail = w_size w - rPos r3 in
                   if avail \<ge> 1 then
                     (case go_index (w_data w) (rPos r3) of
                        None \<Rightarrow> Panic
                      | Some res \<Rightarrow>
                          let r4 = r3\<lparr>rPos := rPos r3 + 1\<rparr>;
                              r5 = (if rPos r4 \<ge> w_size w then wrapped r4 else r4)
                          in Return r5 res None)
                   else
                     (case go_index (w_data w) 0 of
                        None \<Rightarrow> Panic
                      | Some res \<Rightarrow>
                          Return (r3\<lparr>rPos := 1, r_cycle := r_cycle r3 + 1\<rparr>) res None))
              else if r_cycle r2 \<noteq> w_cycle w then Return r2 zero (Some ErrFuture)
              else if rPos r2 \<ge> wPos w then Return r2 zero (Some EOF)
              else
                (case go_index (w_data w) (rPos r2) of
                   None \<Rightarrow> Panic
                 | Some res \<Rightarrow> Return (r2\<lparr>rPos := rPos r2 + 1\<rparr>) res None))"

text \<open>
  \<open>Reader.Close\<close>: \<open>closed\<close> is a \<open>uint64\<close> incremented atomically; the call that brings it
  to 1 leaves the wait group, and \<open>Done\<close> panics on a negative counter.
\<close>

definition Close_Reader :: "'a Writer \<Rightarrow> Reader \<Rightarrow> ('a Writer \<times> Reader, unit) outcome" where
  "Close_Reader w r =
     (let c = (r_closed r + 1) mod 2 ^ 64; r1 = r\<lparr>r_closed := c\<rparr> in
      if c \<noteq> 1 then Return (w, r1) () None
      else if w_wg w - 1 < 0 then Panic
      else Return (w\<lparr>w_wg := w_wg w - 1\<rparr>, r1) () None)"

definition Reset :: "'a Writer \<Rightarrow> Reader \<Rightarrow> Reader" where
  "Reset w r = r\<lparr>r_cycle := w_cycle w, rPos := wPos w\<rparr>"

definition SetAutoSkip :: "Reader \<Rightarrow> bool \<Rightarrow> Reader" where
  "SetAutoSkip r enabled = r\<lparr>autoSkip := enabled\<rparr>"

section \<open>Programs over one writer and its readers\<close>

text \<open>
  A client program is a sequence of calls on one writer and on the readers it has handed
  out, numbered in the order of their creation. A factory called on a closed writer returns
  \<open>nil\<close> and adds no reader. A call that panics or does not return ends the program
  (\<open>None\<close>), and so does a call on a reader that does not exist. A call that parks leaves
  its reader (or the writer) in the state it was parked in.
\<close>

datatype 'a op =
    NewReader | NewBlockingReader | NewBlockingCurrentReader
  | DoWrite "'a list" | DoAppend "'a list" | DoCloseWriter
  | DoRead nat "'a list" | DoReadOne nat | DoReset nat | DoSetAutoSkip nat bool
  | DoCloseReader nat

definition add_reader :: "'a Writer \<Rightarrow> Reader list \<Rightarrow> ('a Writer \<times> Reader) option
    \<Rightarrow> ('a Writer \<times> Reader list) option" where
  "add_reader w rs made = (case made of None \<Rightarrow> Some (w, rs) | Some (w', r) \<Rightarrow> Some (w', rs @ [r]))"

definition after_write :: "Reader list \<Rightarrow> ('a Writer, 'v) outcome
    \<Rightarrow> ('a Writer \<times> Reader list) option" where
  "after_write rs res =
     (case res of Panic \<Rightarrow> None | Parked w' \<Rightarrow> Some (w', rs) | Return w' _ _ \<Rightarrow> Some (w', rs))"

fun step :: "'a \<Rightarrow> 'a op \<Rightarrow> 'a Writer \<times> Reader list \<Rightarrow> ('a Writer \<times> Reader list) option" where
  "step zero NewReader (w, rs) = add_reader w rs (Reader w)"
| "step zero NewBlockingReader (w, rs) = add_reader w rs (BlockingReader w)"
| "step zero NewBlockingCurrentReader (w, rs) = add_reader w rs (BlockingCurrentReader w)"
| "step zero (DoWrite vs) (w, rs) = after_write rs (Write w vs)"
| "step zero (DoAppend vs) (w, rs) = after_write rs (Append w vs)"
| "step zero DoCloseWriter (w, rs) = after_write rs (Close_Writer w)"
| "step zero (DoRead i p) (w, rs) =
     (if i < length rs then
        (case Read w (rs ! i) p of
           None \<Rightarrow> None
         | Some Panic \<Rightarrow> None
         | Some (Parked (r', p')) \<Rightarrow> Some (w, rs[i := r'])
         | Some (Return (r', p') k e) \<Rightarrow> Some (w, rs[i := r']))
      else None)"
| "step zero (DoReadOne i) (w, rs) =
     (if i < length rs then
        (case ReadOne zero w (rs ! i) of
           Panic \<Rightarrow> None
         | Parked r' \<Rightarrow> Some (w, rs[i := r'])
         | Return r' x e \<Rightarrow> Some (w, rs[i := r']))
      else None)"
| "step zero (DoReset i) (w, rs) =
     (if i < length rs then Some (w, rs[i := Reset w (rs ! i)]) else None)"
| "step zero (DoSetAutoSkip i enabled) (w, rs) =
     (if i < length rs then Some (w, rs[i := SetAutoSkip (rs ! i) enabled]) else None)"
| "step zero (DoCloseReader i) (w, rs) =
     (if i < length rs then
        (case Close_Reader w (rs ! i) of
           Panic \<Rightarrow> None
         | Parked (w', r') \<Rightarrow> Some (w', rs[i := r'])
         | Return (w', r') u e \<Rightarrow> Some (w', rs[i := r']))
      else None)"

fun run :: "'a \<Rightarrow> 'a op list \<Rightarrow> 'a Writer \<times> Reader list \<Rightarrow> ('a Writer \<times> Reader list) option" where
  "run zero [] s = Some s"
| "run zero (c # cs) s = (case step zero c s of None \<Rightarrow> None | Some s' \<Rightarrow> run zero cs s')"

text \<open>A sequence of writes, all of which must return without an error.\<close>

fun write_all :: "'a Writer \<Rightarrow> 'a list list \<Rightarrow> 'a Writer option" where
  "write_all w [] = Some w"
| "write_all w (vs # vss) =
     (case Write w vs of Return w' k None \<Rightarrow> write_all w' vss | _ \<Rightarrow> None)"

text \<open>
  The consumer's loop: call \<open>Read\<close> on one destination after the other, keep the \<open>k\<close>
  elements each call reports, and stop at the first error. The result is what was read
  and that error; \<open>None\<close> when the destinations run out first, or when a call parks,
  panics or does not return.
\<close>

fun read_until_error :: "'a Writer \<Rightarrow> Reader \<Rightarrow> 'a list list \<Rightarrow> ('a list \<times> error) option" where
  "read_until_error w r [] = None"
| "read_until_error w r (p # ps) =
     (case Read w r p of
        None \<Rightarrow> None
      | Some Panic \<Rightarrow> None
      | Some (Parked s) \<Rightarrow> None
      | Some (Return (r', p') k None) \<Rightarrow>
          map_option (\<lambda>(xs, e). (take (nat k) p' @ xs, e)) (read_until_error w r' ps)
      | Some (Return (r', p') k (Some e)) \<Rightarrow> Some (take (nat k) p', e))"


section \<open>Invariants\<close>

text \<open>
  The data model's invariant of the writer: a positive size, the storage of that length,
  and the write position inside it.
\<close>

definition writer_ok :: "'a Writer \<Rightarrow> bool" where
  "writer_ok w \<longleftrightarrow>
     0 < w_size w \<and> 0 \<le> wPos w \<and> wPos w < w_size w \<and> int (length (w_data w)) = w_size w"

text \<open>A reader's position is inside the storage.\<close>

definition reader_ok :: "'a Writer \<Rightarrow> Reader \<Rightarrow> bool" where
  "reader_ok w r \<longleftrightarrow> 0 \<le> rPos r \<and> rPos r < w_size w"


text \<open>
  A writer that has taken the values \<open>xs\<close>, at most one storage full of them, since it was
  made, and a reader of it that has delivered the first \<open>g\<close> of them.
\<close>

definition holds :: "'a Writer \<Rightarrow> 'a list \<Rightarrow> bool" where
  "holds w xs \<longleftrightarrow>
     writer_ok w \<and> \<not> w_closed w \<and> take (length xs) (w_data w) = xs \<and>
     (w_cycle w = 0 \<and> wPos w = int (length xs) \<or>
      w_cycle w = 1 \<and> wPos w = 0 \<and> int (length xs) = w_size w)"

definition delivered :: "'a Writer \<Rightarrow> Reader \<Rightarrow> nat \<Rightarrow> bool" where
  "delivered w r g \<longleftrightarrow>
     r_closed r = 0 \<and> \<not> block r \<and>
     (r_cycle r = 0 \<and> rPos r = int g \<and> int g < w_size w \<or>
      r_cycle r = 1 \<and> rPos r = 0 \<and> int g = w_size w)"

text \<open>The reader that a call of \<open>Read\<close> leaves behind is inside the storage.\<close>

definition result_ok :: "'a Writer \<Rightarrow> (Reader \<times> 'a list, int) outcome \<Rightarrow> bool" where
  "result_ok w res =
     (case res of Panic \<Rightarrow> True | Parked (r', p') \<Rightarrow> reader_ok w r'
      | Return (r', p') k e \<Rightarrow> reader_ok w r')"

section \<open>Arithmetic and slices\<close>

lemma length_go_copy [simp]: "length (go_copy dst src) = length dst"
  by (simp add: go_copy_def)

lemma go_copy_short: "length src \<le> length dst \<Longrightarrow> go_copy dst src = src @ drop (length src) dst"
  by (simp add: go_copy_def)

lemma quo_nonneg: "0 \<le> a \<Longrightarrow> 0 < b \<Longrightarrow> quo a b = a div b"
  by (cases "a = 0") (simp_all add: quo_def)

lemma rem_nonneg: "0 \<le> a \<Longrightarrow> 0 < b \<Longrightarrow> rem a b = a mod b"
  by (cases "a = 0") (simp_all add: rem_def)

text \<open>
  The lap before \<open>c\<close> is \<open>c - 1\<close>. It is below \<open>c\<close> unless \<open>c\<close> is the least \<open>int64\<close>, where
  the subtraction wraps around.
\<close>

lemma lap_before_asym: "(c::64 word) - 1 <s c \<Longrightarrow> \<not> c <s c - 1"
  by (simp add: word_sless_alt)

lemma lap_before_neq [simp]: "(c::64 word) - 1 \<noteq> c" "c \<noteq> c - 1"
  by simp_all

lemma sless_neq: "(a::64 word) <s b \<Longrightarrow> a \<noteq> b"
  by auto

section \<open>What a returning Write preserves\<close>

lemma oversized_props:
  assumes "0 < w_size w" and "oversized w vs = Some (w1, vs1)"
  shows "w_size w1 = w_size w" and "w_data w1 = w_data w"
    and "w_closed w1 = w_closed w" and "w_wg w1 = w_wg w" and "wPos w \<le> wPos w1"
proof -
  have "0 \<le> int (length vs) mod w_size w"
    using assms(1) by simp
  then show "w_size w1 = w_size w"
    and "w_data w1 = w_data w" and "w_closed w1 = w_closed w" and "w_wg w1 = w_wg w"
    and "wPos w \<le> wPos w1"
    using assms
    by (auto simp: oversized_def Let_def rem_nonneg split: if_splits)
qed

lemma copy_in_props:
  assumes "copy_in w vs = Some w1"
  shows "w_size w1 = w_size w" and "wPos w1 = wPos w"
    and "w_closed w1 = w_closed w" and "w_wg w1 = w_wg w"
    and "length (w_data w1) = length (w_data w)" and "0 \<le> wPos w"
  using assms
  by (auto simp: copy_in_def Let_def go_slice_from_def split: if_splits option.splits)

lemma Write_Return_cases:
  assumes "Write w vs = Return w' k e"
  obtains (closed) "w_closed w" and "w' = w" and "k = 0" and "e = Some ErrClosedPipe"
  | (written) w1 vs1 w2 where "\<not> w_closed w" and "oversized w vs = Some (w1, vs1)"
      and "copy_in w1 vs1 = Some w2" and "w_size w2 \<noteq> 0"
      and "w' = w2\<lparr>wPos := rem (wPos w2 + int (length vs1)) (w_size w2)\<rparr>"
      and "k = int (length vs)" and "e = None"
  using assms
  by (auto simp: Write_def Let_def split: if_splits option.splits prod.splits)

lemma Write_Return_fields:
  assumes "0 < w_size w" and "Write w vs = Return w' k e"
  shows "w_size w' = w_size w \<and> w_closed w' = w_closed w \<and>
    w_wg w' = w_wg w \<and> length (w_data w') = length (w_data w)"
  using assms(2)
proof (cases rule: Write_Return_cases)
  case closed
  then show ?thesis by simp
next
  case (written w1 vs1 w2)
  from oversized_props [OF assms(1) written(2)] copy_in_props [OF written(3)] written(5)
  show ?thesis by simp
qed


section \<open>Closed forms of Read\<close>

lemma Read_closed:
  "r_closed r \<noteq> 0 \<Longrightarrow> Read w r p = Some (Return (r, p) 0 (Some ErrClosedPipe))"
  by (subst Read.simps) simp

lemma Read_parked:
  "r_closed r = 0 \<Longrightarrow> wait_for_data w r = None \<Longrightarrow> Read w r p = Some (Parked (r, p))"
  by (subst Read.simps) simp

lemma wait_for_data_Some:
  assumes "wait_for_data w r = Some r1"
  shows "rPos r1 = rPos r" and "r_cycle r1 = r_cycle r" and "r_closed r1 = r_closed r"
    and "autoSkip r1 = autoSkip r"
  using assms by (auto simp: wait_for_data_def split: if_splits)

text \<open>An open reader that does not wait: one unfolding of \<open>Read\<close>.\<close>

lemma Read_open:
  assumes "r_closed r = 0" and "wait_for_data w r = Some r1"
    and "r2 = (if r_cycle r1 <s w_cycle w - 1
               then r1\<lparr>r_cycle := w_cycle w - 1, rPos := wPos w\<rparr> else r1)"
    and "r3 = (if wPos w > rPos r2 then r2\<lparr>rPos := wPos w\<rparr> else r2)"
    and "avail = w_size w - rPos r3"
    and "n' = min (int (length p)) (wPos w - rPos r2)"
  shows "Read w r p =
      (if r_cycle r1 <s w_cycle w - 1 \<and> \<not> autoSkip r1
       then Some (Return (r1, p) 0 (Some ErrStaleReader))
       else if r_cycle r2 = w_cycle w - 1 then
         (if wPos w > rPos r2 \<and> \<not> autoSkip r2
          then Some (Return (r2, p) 0 (Some ErrStaleReader))
          else if avail \<ge> int (length p) then
            (case go_slice (w_data w) (rPos r3) (rPos r3 + int (length p)) of
               None \<Rightarrow> Some Panic
             | Some src \<Rightarrow>
                 Some (Return (if rPos r3 + int (length p) \<ge> w_size w
                         then wrapped (r3\<lparr>rPos := rPos r3 + int (length p)\<rparr>)
                         else r3\<lparr>rPos := rPos r3 + int (length p)\<rparr>, go_copy p src)
                   (int (length p)) None))
          else
            (case go_slice_from (w_data w) (rPos r3) of
               None \<Rightarrow> Some Panic
             | Some src \<Rightarrow>
                 (case go_slice_from (go_copy p src) avail of
                    None \<Rightarrow> Some Panic
                  | Some rest \<Rightarrow>
                      Option.bind (Read w (wrapped r3) rest)
                        (\<lambda>res. Some (case res of
                           Panic \<Rightarrow> Panic
                         | Parked (r', rest') \<Rightarrow>
                             Parked (r', take (nat avail) (go_copy p src) @ rest')
                         | Return (r', rest') nextN err \<Rightarrow>
                             Return (r', take (nat avail) (go_copy p src) @ rest')
                               (avail + nextN) err)))))
       else if r_cycle r2 \<noteq> w_cycle w then Some (Return (r2, p) 0 (Some ErrFuture))
       else if rPos r2 \<ge> wPos w then Some (Return (r2, p) 0 (Some EOF))
       else
         (case go_slice (w_data w) (rPos r2) (rPos r2 + n') of
            None \<Rightarrow> Some Panic
          | Some src \<Rightarrow> Some (Return (r2\<lparr>rPos := rPos r2 + n'\<rparr>, go_copy p src) n' None)))"
  using assms(1,2) unfolding assms(3,4,5,6)
  by (subst Read.simps) (auto simp: Let_def min_def split: option.splits)

text \<open>
  A reader on the writer's lap, where the lap before is below it: the call does not
  recur.
\<close>

lemma Read_current:
  assumes "r_cycle r = w_cycle w" and "w_cycle w - 1 <s w_cycle w"
  shows "Read w r p =
     (if r_closed r > 0 then Some (Return (r, p) 0 (Some ErrClosedPipe))
      else case wait_for_data w r of
          None \<Rightarrow> Some (Parked (r, p))
        | Some r1 \<Rightarrow>
            if rPos r1 \<ge> wPos w then Some (Return (r1, p) 0 (Some EOF))
            else let n' = min (int (length p)) (wPos w - rPos r1) in
              (case go_slice (w_data w) (rPos r1) (rPos r1 + n') of
                 None \<Rightarrow> Some Panic
               | Some src \<Rightarrow> Some (Return (r1\<lparr>rPos := rPos r1 + n'\<rparr>, go_copy p src) n' None)))"
proof (cases "r_closed r = 0")
  case False
  then show ?thesis by (simp add: Read_closed)
next
  case True
  show ?thesis
  proof (cases "wait_for_data w r")
    case None
    then show ?thesis using True by (simp add: Read_parked)
  next
    case (Some r1)
    have c: "r_cycle r1 = w_cycle w"
      using wait_for_data_Some(2) [OF Some] assms(1) by simp
    have "\<not> r_cycle r1 <s w_cycle w - 1"
      using lap_before_asym [OF assms(2)] c by simp
    then show ?thesis
      using True Some c
      by (simp add: Read_open [OF True Some refl refl refl refl] Let_def)
  qed
qed

text \<open>The same for a reader that does not wait and is not past the write position.\<close>

lemma Read_current_data:
  assumes "writer_ok w" and "r_closed r = 0" and "r_cycle r = w_cycle w"
    and "w_cycle w - 1 <s w_cycle w"
    and "wait_for_data w r = Some r1" and "0 \<le> rPos r" and "rPos r \<le> wPos w"
    and "m = min (int (length p)) (wPos w - rPos r)"
  shows "Read w r p =
     Some (Return (r1\<lparr>rPos := rPos r + m\<rparr>,
             take (nat m) (drop (nat (rPos r)) (w_data w)) @ drop (nat m) p) m
       (if rPos r = wPos w then Some EOF else None))"
proof (cases "rPos r = wPos w")
  case True
  then have "m = 0" using assms(8) by simp
  moreover have "r1\<lparr>rPos := rPos r\<rparr> = r1"
    using wait_for_data_Some(1) [OF assms(5)] by simp
  ultimately show ?thesis
    using True assms(2,5) wait_for_data_Some(1) [OF assms(5)]
    by (simp add: Read_current [OF assms(3,4)])
next
  case False
  note same = wait_for_data_Some [OF assms(5)]
  have len: "int (length (w_data w)) = w_size w" and pos: "wPos w < w_size w"
    using assms(1) by (simp_all add: writer_ok_def)
  have m0: "0 \<le> m" "m \<le> wPos w - rPos r" "m \<le> int (length p)"
    using assms(7,8) by simp_all
  let ?src = "take (nat m) (drop (nat (rPos r)) (w_data w))"
  have sl: "go_slice (w_data w) (rPos r) (rPos r + m) = Some ?src"
    using len pos m0 assms(6) by (simp add: go_slice_def)
  have "length ?src = nat m"
    using len pos m0 assms(6) by simp
  then have "go_copy p ?src = ?src @ drop (nat m) p"
    using go_copy_short [of ?src p] m0 by simp
  then show ?thesis
    using False assms(2,5,7) sl assms(8) [symmetric] same(1)
    by (simp add: Read_current [OF assms(3,4)] Let_def)
qed

text \<open>
  A reader exactly one lap behind that is still valid, with a destination longer than the
  rest of the storage, and a recursive call that does not wait: the tail and the head of
  the storage are delivered as one count.
\<close>

lemma Read_across_wrap:
  assumes "writer_ok w" and "r_closed r = 0" and "r_cycle r = w_cycle w - 1"
    and "w_cycle w - 1 <s w_cycle w"
    and "wPos w \<le> rPos r" and "rPos r < w_size w"
    and "w_size w - rPos r < int (length p)" and "\<not> block r \<or> 0 < wPos w \<or> w_closed w"
    and "m = min (int (length p) - (w_size w - rPos r)) (wPos w)"
  shows "Read w r p =
     Some (Return (r\<lparr>rPos := m, r_cycle := w_cycle w, block := block r \<and> 0 < wPos w\<rparr>,
             drop (nat (rPos r)) (w_data w) @ take (nat m) (w_data w) @
             drop (nat (w_size w - rPos r + m)) p)
       (w_size w - rPos r + m) (if wPos w = 0 then Some EOF else None))"
proof -
  define avail where "avail = w_size w - rPos r"
  define q where "q = drop (nat avail) p"
  define tail where "tail = drop (nat (rPos r)) (w_data w)"
  define r1 where "r1 = (wrapped r)\<lparr>block := block r \<and> 0 < wPos w\<rparr>"
  have len: "int (length (w_data w)) = w_size w" and pos: "0 \<le> wPos w" "wPos w < w_size w"
    using assms(1) by (simp_all add: writer_ok_def)
  have rp: "0 \<le> rPos r" using pos assms(5) by simp
  have av: "0 < avail" "avail < int (length p)"
    using assms(6,7) by (simp_all add: avail_def)
  have ltail: "length tail = nat avail"
    using len rp by (simp add: tail_def avail_def)
  have lq: "int (length q) = int (length p) - avail"
    using av by (simp add: q_def)
  have cp: "go_copy p tail = tail @ q"
    using go_copy_short [of tail p] av ltail by (simp add: q_def)
  have rest: "go_slice_from (go_copy p tail) avail = Some q"
    using av ltail by (simp add: go_slice_from_def cp)
  have tl: "go_slice_from (w_data w) (rPos r) = Some tail"
    using len rp assms(6) by (simp add: go_slice_from_def tail_def)
  have w1: "wait_for_data w r = Some r"
    using assms(3) by (simp add: wait_for_data_def)
  have w2: "wait_for_data w (wrapped r) = Some r1"
  proof (cases "block r \<and> wPos w = 0")
    case True
    then show ?thesis
      using assms(3,8) by (simp add: wait_for_data_def wrapped_def r1_def)
  next
    case False
    then have "r1 = wrapped r"
      using pos by (auto simp: r1_def wrapped_def)
    then show ?thesis
      using False pos by (auto simp: wait_for_data_def wrapped_def)
  qed
  have m: "m = min (int (length q)) (wPos w - rPos (wrapped r))"
    using assms(9) by (simp add: lq avail_def wrapped_def)
  have inner: "Read w (wrapped r) q =
      Some (Return (r1\<lparr>rPos := m\<rparr>, take (nat m) (w_data w) @ drop (nat m) q) m
        (if wPos w = 0 then Some EOF else None))"
    using Read_current_data [OF assms(1) _ _ assms(4) w2 _ _ m] assms(2,3) pos
    by (auto simp: wrapped_def)
  have m0: "0 \<le> m" using assms(9) av pos by (simp add: avail_def)
  have not_stale: "\<not> r_cycle r <s w_cycle w - 1"
    using assms(3) by simp
  have "Read w r p =
      Option.bind (Read w (wrapped r) q)
        (\<lambda>res. Some (case res of
           Panic \<Rightarrow> Panic
         | Parked (r', rest') \<Rightarrow> Parked (r', take (nat avail) (go_copy p tail) @ rest')
         | Return (r', rest') nextN err \<Rightarrow>
             Return (r', take (nat avail) (go_copy p tail) @ rest') (avail + nextN) err))"
    using assms(3,5,7) not_stale rest tl av unfolding avail_def
    by (simp add: Read_open [OF assms(2) w1 refl refl refl refl])
  also have "take (nat avail) (go_copy p tail) = tail"
    using ltail by (simp add: cp)
  finally have unfolded: "Read w r p =
      Option.bind (Read w (wrapped r) q)
        (\<lambda>res. Some (case res of
           Panic \<Rightarrow> Panic
         | Parked (r', rest') \<Rightarrow> Parked (r', tail @ rest')
         | Return (r', rest') nextN err \<Rightarrow> Return (r', tail @ rest') (avail + nextN) err))" .
  have "drop (nat m) q = drop (nat (avail + m)) p"
    using av m0 by (simp add: q_def nat_add_distrib add.commute)
  then show ?thesis
    unfolding unfolded inner using assms(3)
    by (simp add: wrapped_def avail_def tail_def r1_def)
qed

text \<open>The same reader with a destination that the rest of the storage fills.\<close>

lemma Read_tail:
  assumes "writer_ok w" and "r_closed r = 0" and "r_cycle r = w_cycle w - 1"
    and "wPos w \<le> rPos r" and "rPos r < w_size w"
    and "int (length p) \<le> w_size w - rPos r"
  shows "Read w r p =
     Some (Return (if rPos r + int (length p) \<ge> w_size w
             then wrapped (r\<lparr>rPos := rPos r + int (length p)\<rparr>)
             else r\<lparr>rPos := rPos r + int (length p)\<rparr>,
             take (length p) (drop (nat (rPos r)) (w_data w))) (int (length p)) None)"
proof -
  have len: "int (length (w_data w)) = w_size w" and pos: "0 \<le> wPos w"
    using assms(1) by (simp_all add: writer_ok_def)
  have w1: "wait_for_data w r = Some r"
    using assms(3) by (simp add: wait_for_data_def)
  have not_stale: "\<not> r_cycle r <s w_cycle w - 1"
    using assms(3) by simp
  let ?src = "take (length p) (drop (nat (rPos r)) (w_data w))"
  have sl: "go_slice (w_data w) (rPos r) (rPos r + int (length p)) = Some ?src"
    using len pos assms(4,6) by (simp add: go_slice_def)
  have "length ?src = length p"
    using len pos assms(4,6) by simp
  then have "go_copy p ?src = ?src"
    by (simp add: go_copy_def)
  then show ?thesis
    using assms(3,4,6) sl not_stale
    by (simp add: Read_open [OF assms(2) w1 refl refl refl refl])
qed



section \<open>Reads keep the reader inside the storage\<close>

lemma result_ok_simps [simp]:
  "result_ok w Panic" "result_ok w (Parked (r', p')) = reader_ok w r'"
  "result_ok w (Return (r', p') k e) = reader_ok w r'"
  by (simp_all add: result_ok_def)

lemma result_ok_lift [simp]:
  "result_ok w (case res0 of
       Panic \<Rightarrow> Panic
     | Parked (r', rest') \<Rightarrow> Parked (r', t @ rest')
     | Return (r', rest') nextN err \<Rightarrow> Return (r', t @ rest') (a + nextN) err) =
   result_ok w res0"
  by (auto simp: result_ok_def split: outcome.splits)






section \<open>Every program keeps the positions inside the storage\<close>









section \<open>Writes longer than the storage\<close>

text \<open>
  Claim C1: \<open>Write\<close> is safe for a sequence of any length and any write position inside
  the storage, and leaves the write position inside the storage and the lap counter not
  smaller. The code does not do that. For a sequence longer than the storage it adds
  \<open>n % size\<close> to the write position and then slices the storage from that position, which
  may lie past its end. On a fresh writer of size 10, a write of 8 values leaves the
  position at 8; a write of 15 values then moves it to 13, and \<open>w.data[13:]\<close> panics.
\<close>

theorem C1_Write_panics_past_the_end:
  "New (CHR 0x00) 10 =
     Inr \<lparr>w_data = replicate 10 (CHR 0x00), w_size = 10, wPos = 0, w_cycle = 0,
          w_closed = False, w_wg = 0\<rparr> \<and>
   Write \<lparr>w_data = replicate 10 (CHR 0x00), w_size = 10, wPos = 0, w_cycle = 0,
          w_closed = False, w_wg = 0\<rparr> ''12345678'' =
     Return \<lparr>w_data = ''12345678'' @ replicate 2 (CHR 0x00), w_size = 10, wPos = 8,
             w_cycle = 0, w_closed = False, w_wg = 0\<rparr> 8 None \<and>
   writer_ok \<lparr>w_data = ''12345678'' @ replicate 2 (CHR 0x00), w_size = 10, wPos = 8,
              w_cycle = 0, w_closed = False, w_wg = 0\<rparr> \<and>
   Write \<lparr>w_data = ''12345678'' @ replicate 2 (CHR 0x00), w_size = 10, wPos = 8,
          w_cycle = 0, w_closed = False, w_wg = 0\<rparr> ''abcdefghijklmno'' = Panic"
  by (simp add: New_def Write_def oversized_def copy_in_def go_slice_from_def go_copy_def
      quo_def rem_def writer_ok_def)

text \<open>
  Claim C3: a write longer than the storage makes every reader created before it stale, so
  that its next \<open>Read\<close> without auto-skip returns \<open>ErrStaleReader\<close>. The code's own comment
  on that branch says so, but the lap counter is one short when the write position plus
  \<open>n % size\<close> is exactly the size. On a writer of size 10 holding 5 values, a reader is
  created and 15 values are written: the writer ends on lap 1 at position 0 instead of lap
  2, the reader at lap 0, position 0 passes for one lap behind, and its \<open>Read\<close> returns the
  ten values in the storage with no error, the ten values before them lost.
\<close>

theorem C3_reader_survives_oversized_write:
  "New (CHR 0x00) 10 =
     Inr \<lparr>w_data = replicate 10 (CHR 0x00), w_size = 10, wPos = 0, w_cycle = 0,
          w_closed = False, w_wg = 0\<rparr> \<and>
   Write \<lparr>w_data = replicate 10 (CHR 0x00), w_size = 10, wPos = 0, w_cycle = 0,
          w_closed = False, w_wg = 0\<rparr> ''hello'' =
     Return \<lparr>w_data = ''hello'' @ replicate 5 (CHR 0x00), w_size = 10, wPos = 5,
             w_cycle = 0, w_closed = False, w_wg = 0\<rparr> 5 None \<and>
   Reader \<lparr>w_data = ''hello'' @ replicate 5 (CHR 0x00), w_size = 10, wPos = 5,
           w_cycle = 0, w_closed = False, w_wg = 0\<rparr> =
     Some (\<lparr>w_data = ''hello'' @ replicate 5 (CHR 0x00), w_size = 10, wPos = 5,
            w_cycle = 0, w_closed = False, w_wg = 1\<rparr>,
           \<lparr>rPos = 0, r_cycle = 0, block = False, autoSkip = False, r_closed = 0\<rparr>) \<and>
   Write \<lparr>w_data = ''hello'' @ replicate 5 (CHR 0x00), w_size = 10, wPos = 5,
          w_cycle = 0, w_closed = False, w_wg = 1\<rparr> ''abcdefghijklmno'' =
     Return \<lparr>w_data = ''fghijklmno'', w_size = 10, wPos = 0, w_cycle = 1,
             w_closed = False, w_wg = 1\<rparr> 15 None \<and>
   Read \<lparr>w_data = ''fghijklmno'', w_size = 10, wPos = 0, w_cycle = 1,
         w_closed = False, w_wg = 1\<rparr>
        \<lparr>rPos = 0, r_cycle = 0, block = False, autoSkip = False, r_closed = 0\<rparr>
        ''..........'' =
     Some (Return (\<lparr>rPos = 0, r_cycle = 1, block = False, autoSkip = False, r_closed = 0\<rparr>,
             ''fghijklmno'') 10 None)"
  by (simp add: New_def Write_def Reader_def rewind_def oversized_def copy_in_def
      go_slice_from_def go_slice_def go_copy_def quo_def rem_def Read.simps wait_for_data_def
      wrapped_def word_sless_alt)

section \<open>Stale readers\<close>

text \<open>
  Claim C2, as stated: a reader without auto-skip fails with \<open>ErrStaleReader\<close>, its
  position unchanged, when its lap is more than one behind the writer's, or exactly one
  behind with its position at or before the writer's, the equal positions included. The
  code tests \<open>w.wPos > r.rPos\<close>: a reader exactly one lap behind at the writer's own
  position is the oldest valid reader, the one \<open>Reader()\<close> hands out, and it reads. After
  ``hello'' and ``helloworld'' on a writer of size 10, a new reader stands at lap 0,
  position 5 with the writer at lap 1, position 5, and reads ``hello''.
\<close>

theorem C2_boundary_reader_is_not_stale:
  "Write \<lparr>w_data = ''hello'' @ replicate 5 (CHR 0x00), w_size = 10, wPos = 5,
          w_cycle = 0, w_closed = False, w_wg = 0\<rparr> ''helloworld'' =
     Return \<lparr>w_data = ''worldhello'', w_size = 10, wPos = 5, w_cycle = 1,
             w_closed = False, w_wg = 0\<rparr> 10 None \<and>
   Reader \<lparr>w_data = ''worldhello'', w_size = 10, wPos = 5, w_cycle = 1,
           w_closed = False, w_wg = 0\<rparr> =
     Some (\<lparr>w_data = ''worldhello'', w_size = 10, wPos = 5, w_cycle = 1,
            w_closed = False, w_wg = 1\<rparr>,
           \<lparr>rPos = 5, r_cycle = 0, block = False, autoSkip = False, r_closed = 0\<rparr>) \<and>
   r_cycle \<lparr>rPos = 5, r_cycle = 0, block = False, autoSkip = False, r_closed = 0\<rparr> =
     w_cycle \<lparr>w_data = ''worldhello'', w_size = 10, wPos = 5, w_cycle = 1,
              w_closed = False, w_wg = 1\<rparr> - 1 \<and>
   rPos \<lparr>rPos = 5, r_cycle = 0, block = False, autoSkip = False, r_closed = 0\<rparr> \<le>
     wPos \<lparr>w_data = ''worldhello'', w_size = 10, wPos = 5, w_cycle = 1,
           w_closed = False, w_wg = 1\<rparr> \<and>
   Read \<lparr>w_data = ''worldhello'', w_size = 10, wPos = 5, w_cycle = 1,
         w_closed = False, w_wg = 1\<rparr>
        \<lparr>rPos = 5, r_cycle = 0, block = False, autoSkip = False, r_closed = 0\<rparr>
        ''.....'' =
     Some (Return (\<lparr>rPos = 0, r_cycle = 1, block = False, autoSkip = False, r_closed = 0\<rparr>,
             ''hello'') 5 None) \<and>
   ReadOne (CHR 0x00)
        \<lparr>w_data = ''worldhello'', w_size = 10, wPos = 5, w_cycle = 1,
         w_closed = False, w_wg = 1\<rparr>
        \<lparr>rPos = 5, r_cycle = 0, block = False, autoSkip = False, r_closed = 0\<rparr> =
     Return \<lparr>rPos = 6, r_cycle = 0, block = False, autoSkip = False, r_closed = 0\<rparr>
            (CHR ''h'') None"
  by (simp add: Write_def Reader_def rewind_def oversized_def copy_in_def
      go_slice_from_def go_slice_def go_index_def go_copy_def quo_def rem_def Read.simps
      ReadOne_def wait_for_data_def wrapped_def word_sless_alt)

text \<open>
  Claim C2, amended: an open reader without auto-skip whose lap is more than one behind the
  writer's, or exactly one behind with its position strictly before the writer's, gets
  \<open>ErrStaleReader\<close> from \<open>Read\<close> and from \<open>ReadOne\<close>, and its position, lap and flags are
  unchanged (and so is the destination). ``More than one behind'' is the code's test
  \<open>r.cycle < w.cycle - 1\<close>. A blocking reader on the writer's own lap waits before that
  test, and the test can hold of the writer's own lap: when the lap counter has wrapped to
  the least \<open>int64\<close>, \<open>w.cycle - 1\<close> wraps too. That state of a blocking reader is left
  out.
\<close>

theorem C2_stale_reader_fails:
  assumes "r_closed r = 0" and "\<not> autoSkip r"
    and "r_cycle r <s w_cycle w - 1 \<and> (block r \<longrightarrow> r_cycle r \<noteq> w_cycle w) \<or>
         r_cycle r = w_cycle w - 1 \<and> rPos r < wPos w"
  shows "Read w r p = Some (Return (r, p) 0 (Some ErrStaleReader)) \<and>
         ReadOne zero w r = Return r zero (Some ErrStaleReader)"
proof -
  have "\<not> block r \<or> r_cycle r \<noteq> w_cycle w"
    using assms(3) by auto
  then have w: "wait_for_data w r = Some r"
    by (auto simp: wait_for_data_def)
  show ?thesis
    using assms w
    by (auto simp: Read_open [OF assms(1) w refl refl refl refl] ReadOne_def Let_def)
qed

theorem C2_stale_reader_fails_witness:
  "r_closed \<lparr>rPos = 0, r_cycle = 1, block = False, autoSkip = False, r_closed = 0\<rparr> = 0 \<and>
   \<not> autoSkip \<lparr>rPos = 0, r_cycle = 1, block = False, autoSkip = False, r_closed = 0\<rparr> \<and>
   Read \<lparr>w_data = ''world2ello'', w_size = 10, wPos = 6, w_cycle = 2, w_closed = False,
         w_wg = 1\<rparr>
        \<lparr>rPos = 0, r_cycle = 1, block = False, autoSkip = False, r_closed = 0\<rparr> ''.....'' =
     Some (Return (\<lparr>rPos = 0, r_cycle = 1, block = False, autoSkip = False, r_closed = 0\<rparr>,
             ''.....'') 0 (Some ErrStaleReader)) \<and>
   ReadOne (CHR 0x00)
        \<lparr>w_data = ''world2ello'', w_size = 10, wPos = 6, w_cycle = 2, w_closed = False,
         w_wg = 1\<rparr>
        \<lparr>rPos = 0, r_cycle = 1, block = False, autoSkip = False, r_closed = 0\<rparr> =
     Return \<lparr>rPos = 0, r_cycle = 1, block = False, autoSkip = False, r_closed = 0\<rparr>
            (CHR 0x00) (Some ErrStaleReader)"
  using C2_stale_reader_fails [of
      "\<lparr>rPos = 0, r_cycle = 1, block = False, autoSkip = False, r_closed = 0\<rparr>"
      "\<lparr>w_data = ''world2ello'', w_size = 10, wPos = 6, w_cycle = 2, w_closed = False,
         w_wg = 1\<rparr>" "''.....''" "CHR 0x00"]
  by simp

section \<open>Writes that end at the end of the storage\<close>

text \<open>
  Claim C5: a \<open>Write\<close> whose values fill the storage exactly to its end, with nothing left
  to copy to the start, still increments the lap counter by one and leaves the write
  position at 0. With a storage of 10: a reader is made, ``hello'' is written and read
  into 5 slots, ``world'' is written and fills the storage to its end, and the next \<open>Read\<close>
  returns ``world'', not \<open>EOF\<close> (the scenario of \<open>TestShort\<close>).
\<close>

theorem C5_exact_fit_advances_lap:
  "(writer_ok w \<and> \<not> w_closed w \<and> int (length vs) = w_size w - wPos w \<longrightarrow>
      Write w vs =
        Return (w\<lparr>w_data := take (nat (wPos w)) (w_data w) @ vs, w_cycle := w_cycle w + 1,
                  wPos := 0\<rparr>) (int (length vs)) None) \<and>
   Reader \<lparr>w_data = replicate 10 (CHR 0x00), w_size = 10, wPos = 0, w_cycle = 0,
           w_closed = False, w_wg = 0\<rparr> =
     Some (\<lparr>w_data = replicate 10 (CHR 0x00), w_size = 10, wPos = 0, w_cycle = 0,
            w_closed = False, w_wg = 1\<rparr>,
           \<lparr>rPos = 0, r_cycle = 0, block = False, autoSkip = False, r_closed = 0\<rparr>) \<and>
   Write \<lparr>w_data = replicate 10 (CHR 0x00), w_size = 10, wPos = 0, w_cycle = 0,
          w_closed = False, w_wg = 1\<rparr> ''hello'' =
     Return \<lparr>w_data = ''hello'' @ replicate 5 (CHR 0x00), w_size = 10, wPos = 5,
             w_cycle = 0, w_closed = False, w_wg = 1\<rparr> 5 None \<and>
   Read \<lparr>w_data = ''hello'' @ replicate 5 (CHR 0x00), w_size = 10, wPos = 5,
         w_cycle = 0, w_closed = False, w_wg = 1\<rparr>
        \<lparr>rPos = 0, r_cycle = 0, block = False, autoSkip = False, r_closed = 0\<rparr>
        ''.....'' =
     Some (Return (\<lparr>rPos = 5, r_cycle = 0, block = False, autoSkip = False, r_closed = 0\<rparr>,
             ''hello'') 5 None) \<and>
   Write \<lparr>w_data = ''hello'' @ replicate 5 (CHR 0x00), w_size = 10, wPos = 5,
          w_cycle = 0, w_closed = False, w_wg = 1\<rparr> ''world'' =
     Return \<lparr>w_data = ''helloworld'', w_size = 10, wPos = 0, w_cycle = 1,
             w_closed = False, w_wg = 1\<rparr> 5 None \<and>
   Read \<lparr>w_data = ''helloworld'', w_size = 10, wPos = 0, w_cycle = 1,
         w_closed = False, w_wg = 1\<rparr>
        \<lparr>rPos = 5, r_cycle = 0, block = False, autoSkip = False, r_closed = 0\<rparr>
        ''hello'' =
     Some (Return (\<lparr>rPos = 0, r_cycle = 1, block = False, autoSkip = False, r_closed = 0\<rparr>,
             ''world'') 5 None)"
proof -
  have general: "Write w vs =
      Return (w\<lparr>w_data := take (nat (wPos w)) (w_data w) @ vs, w_cycle := w_cycle w + 1,
                wPos := 0\<rparr>) (int (length vs)) None"
    if ok: "writer_ok w" and open_w: "\<not> w_closed w"
      and fit: "int (length vs) = w_size w - wPos w"
  proof -
    have len: "int (length (w_data w)) = w_size w" and pos: "0 \<le> wPos w" "wPos w < w_size w"
      using ok by (simp_all add: writer_ok_def)
    have "oversized w vs = Some (w, vs)"
      using fit pos by (simp add: oversized_def)
    moreover have "go_copy (drop (nat (wPos w)) (w_data w)) vs = vs"
      using fit len pos by (simp add: go_copy_def)
    then have "copy_in w vs =
        Some (w\<lparr>w_data := take (nat (wPos w)) (w_data w) @ vs, w_cycle := w_cycle w + 1\<rparr>)"
      using fit len pos by (simp add: copy_in_def go_slice_from_def)
    moreover have "rem (wPos w + int (length vs)) (w_size w) = 0"
      using fit pos by (simp add: rem_def)
    ultimately show ?thesis
      using open_w pos by (simp add: Write_def)
  qed
  show ?thesis
    apply (intro conjI impI)
         apply (simp add: general)
        apply (simp add: Reader_def rewind_def word_sless_alt)
       apply (simp add: Write_def oversized_def copy_in_def go_slice_from_def go_copy_def rem_def)
      apply (simp add: Read.simps wait_for_data_def go_slice_def go_copy_def word_sless_alt)
     apply (simp add: Write_def oversized_def copy_in_def go_slice_from_def go_copy_def rem_def)
    apply (simp add: Read.simps wait_for_data_def wrapped_def go_slice_def go_copy_def
        word_sless_alt)
    done
qed

theorem C5_exact_fit_advances_lap_witness:
  "Write \<lparr>w_data = ''hello'' @ replicate 5 (CHR 0x00), w_size = 10, wPos = 5,
          w_cycle = 0, w_closed = False, w_wg = 1\<rparr> ''world'' =
     Return \<lparr>w_data = ''helloworld'', w_size = 10, wPos = 0, w_cycle = 1,
             w_closed = False, w_wg = 1\<rparr> 5 None"
  using C5_exact_fit_advances_lap [of
      "\<lparr>w_data = ''hello'' @ replicate 5 (CHR 0x00), w_size = 10, wPos = 5,
          w_cycle = 0, w_closed = False, w_wg = 1\<rparr>" "''world''"]
  by (simp add: writer_ok_def)

section \<open>Reads across the end of the storage\<close>




text \<open>
  Claim C10: one \<open>Read\<close> can return a positive count together with \<open>EOF\<close>. A reader that
  does not block, one lap behind (the lap before the writer's being below it), with a
  destination longer than the rest of the storage while the write position is 0, gets the
  tail of the storage, a count equal to its length, and the \<open>EOF\<close> of the recursive call.
  Such a state is reached on a storage of 10 by making a reader, writing ten values and
  reading into 12 slots.
\<close>

theorem C10_count_with_EOF:
  "(writer_ok w \<and> r_closed r = 0 \<and> \<not> block r \<and> r_cycle r = w_cycle w - 1 \<and>
    w_cycle w - 1 <s w_cycle w \<and> wPos w = 0 \<and>
    0 \<le> rPos r \<and> rPos r < w_size w \<and> w_size w - rPos r < int (length p) \<longrightarrow>
      Read w r p =
        Some (Return (r\<lparr>rPos := 0, r_cycle := r_cycle r + 1\<rparr>,
                drop (nat (rPos r)) (w_data w) @ drop (nat (w_size w - rPos r)) p)
          (w_size w - rPos r) (Some EOF)) \<and>
      0 < w_size w - rPos r) \<and>
   Reader \<lparr>w_data = replicate 10 (CHR 0x00), w_size = 10, wPos = 0, w_cycle = 0,
           w_closed = False, w_wg = 0\<rparr> =
     Some (\<lparr>w_data = replicate 10 (CHR 0x00), w_size = 10, wPos = 0, w_cycle = 0,
            w_closed = False, w_wg = 1\<rparr>,
           \<lparr>rPos = 0, r_cycle = 0, block = False, autoSkip = False, r_closed = 0\<rparr>) \<and>
   Write \<lparr>w_data = replicate 10 (CHR 0x00), w_size = 10, wPos = 0, w_cycle = 0,
          w_closed = False, w_wg = 1\<rparr> ''helloworld'' =
     Return \<lparr>w_data = ''helloworld'', w_size = 10, wPos = 0, w_cycle = 1,
             w_closed = False, w_wg = 1\<rparr> 10 None \<and>
   Read \<lparr>w_data = ''helloworld'', w_size = 10, wPos = 0, w_cycle = 1,
         w_closed = False, w_wg = 1\<rparr>
        \<lparr>rPos = 0, r_cycle = 0, block = False, autoSkip = False, r_closed = 0\<rparr>
        ''............'' =
     Some (Return (\<lparr>rPos = 0, r_cycle = 1, block = False, autoSkip = False, r_closed = 0\<rparr>,
             ''helloworld..'') 10 (Some EOF))"
  apply (intro conjI impI)
      apply (elim conjE)
      apply (subst Read_across_wrap [where m = 0]; simp)
     apply simp
    apply (simp add: Reader_def rewind_def word_sless_alt)
   apply (simp add: Write_def oversized_def copy_in_def go_slice_from_def go_copy_def rem_def)
  apply (simp add: Read.simps wait_for_data_def wrapped_def go_slice_def go_slice_from_def
      go_copy_def word_sless_alt)
  done

theorem C10_count_with_EOF_witness:
  "Read \<lparr>w_data = ''worldhello'', w_size = 10, wPos = 0, w_cycle = 2,
         w_closed = False, w_wg = 1\<rparr>
        \<lparr>rPos = 7, r_cycle = 1, block = False, autoSkip = False, r_closed = 0\<rparr>
        ''.....'' =
     Some (Return (\<lparr>rPos = 0, r_cycle = 2, block = False, autoSkip = False, r_closed = 0\<rparr>,
             ''llo..'') 3 (Some EOF))"
  using C10_count_with_EOF [of
      "\<lparr>w_data = ''worldhello'', w_size = 10, wPos = 0, w_cycle = 2,
         w_closed = False, w_wg = 1\<rparr>"
      "\<lparr>rPos = 7, r_cycle = 1, block = False, autoSkip = False, r_closed = 0\<rparr>"
      "''.....''"]
  by (simp add: writer_ok_def word_sless_alt)

section \<open>Short counts\<close>




section \<open>The reader is never ahead of the writer\<close>

text \<open>
  A write of more than one value to an open writer of size 1 keeps the last value and
  adds the number of values to the lap counter, modulo \<open>2^64\<close>.
\<close>

lemma Write_size_one:
  assumes "w_size w = 1" and "wPos w = 0" and "length (w_data w) = 1" and "\<not> w_closed w"
    and "1 < length vs"
  shows "Write w vs =
      Return (w\<lparr>w_data := [last vs], w_cycle := w_cycle w + word_of_int (int (length vs))\<rparr>)
        (int (length vs)) None"
proof -
  have ne: "vs \<noteq> []"
    using assms(5) by auto
  have n1: "nat (int (length vs) - 1) = length vs - 1"
    by simp
  have tail: "drop (length vs - 1) vs = [last vs]"
    using ne by (metis append_butlast_last_id append_eq_conv_conj length_butlast)
  define w1 where "w1 = w\<lparr>w_cycle := w_cycle w + word_of_int (int (length vs) - 1)\<rparr>"
  define w2 where
    "w2 = w\<lparr>w_data := [last vs], w_cycle := w_cycle w + word_of_int (int (length vs))\<rparr>"
  have over: "oversized w vs = Some (w1, [last vs])"
    using assms(1,2,5) tail
    by (simp add: oversized_def quo_def rem_def go_slice_from_def n1 w1_def del: of_nat_diff)
  obtain d where d: "w_data w = [d]"
    using assms(3) by (cases "w_data w") auto
  have copy: "copy_in w1 [last vs] = Some w2"
    using assms(1,2) d by (simp add: copy_in_def go_slice_from_def go_copy_def w1_def w2_def)
  have fields: "w_size w2 = 1" "wPos w2 = 0" "w2\<lparr>wPos := 0\<rparr> = w2"
    using assms(1,2) by (simp_all add: w2_def)
  have "Write w vs = Return w2 (int (length vs)) None"
    using assms(4) by (simp add: Write_def over copy rem_def fields)
  then show ?thesis
    by (simp add: w2_def)
qed

text \<open>
  Claim C8: in every state a program reaches, every reader's lap is at most the writer's,
  so that the branch ``reader is in the future'' of \<open>Read\<close> and \<open>ReadOne\<close> is never taken.
  The code does not keep to it: the lap counter is an \<open>int64\<close> to which a write longer
  than the storage adds \<open>n / size\<close> laps, and it wraps. On a writer of size 1 whose
  elements are of the empty struct type, a reader is made on lap 0 and a slice of \<open>2^62\<close>
  values is written three times: the lap counter is then \<open>- 2^62\<close>, below the reader's
  lap, and both \<open>Read\<close> and \<open>ReadOne\<close> return the error ``reader is in the future''.
\<close>

theorem C8_reader_in_the_future:
  "New () 1 =
     Inr \<lparr>w_data = [()], w_size = 1, wPos = 0, w_cycle = 0, w_closed = False, w_wg = 0\<rparr> \<and>
   run () [NewReader, DoWrite (replicate (2 ^ 62) ()), DoWrite (replicate (2 ^ 62) ()),
           DoWrite (replicate (2 ^ 62) ())]
     (\<lparr>w_data = [()], w_size = 1, wPos = 0, w_cycle = 0, w_closed = False, w_wg = 0\<rparr>, []) =
     Some (\<lparr>w_data = [()], w_size = 1, wPos = 0, w_cycle = - (2 ^ 62), w_closed = False,
            w_wg = 1\<rparr>,
           [\<lparr>rPos = 0, r_cycle = 0, block = False, autoSkip = False, r_closed = 0\<rparr>]) \<and>
   w_cycle \<lparr>w_data = [()], w_size = 1, wPos = 0, w_cycle = - (2 ^ 62), w_closed = False,
            w_wg = 1\<rparr> <s
     r_cycle \<lparr>rPos = 0, r_cycle = 0, block = False, autoSkip = False, r_closed = 0\<rparr> \<and>
   Read \<lparr>w_data = [()], w_size = 1, wPos = 0, w_cycle = - (2 ^ 62), w_closed = False,
         w_wg = 1\<rparr>
        \<lparr>rPos = 0, r_cycle = 0, block = False, autoSkip = False, r_closed = 0\<rparr> [()] =
     Some (Return (\<lparr>rPos = 0, r_cycle = 0, block = False, autoSkip = False, r_closed = 0\<rparr>,
             [()]) 0 (Some ErrFuture)) \<and>
   ReadOne ()
        \<lparr>w_data = [()], w_size = 1, wPos = 0, w_cycle = - (2 ^ 62), w_closed = False,
         w_wg = 1\<rparr>
        \<lparr>rPos = 0, r_cycle = 0, block = False, autoSkip = False, r_closed = 0\<rparr> =
     Return \<lparr>rPos = 0, r_cycle = 0, block = False, autoSkip = False, r_closed = 0\<rparr> ()
       (Some ErrFuture)"
proof -
  define big :: "unit list" where "big = replicate (2 ^ 62) ()"
  have len: "length big = 2 ^ 62"
    by (simp add: big_def)
  have long: "1 < length big"
    unfolding len by simp
  have wr: "Write \<lparr>w_data = [()], w_size = 1, wPos = 0, w_cycle = c, w_closed = False,
                   w_wg = 1\<rparr> big =
      Return \<lparr>w_data = [()], w_size = 1, wPos = 0, w_cycle = c + 2 ^ 62, w_closed = False,
              w_wg = 1\<rparr> (2 ^ 62) None" for c
    using Write_size_one [of "\<lparr>w_data = [()], w_size = 1, wPos = 0, w_cycle = c,
        w_closed = False, w_wg = 1\<rparr>" big] long
    by (simp add: len)
  have laps: "(2 ^ 62 + 2 ^ 62 + 2 ^ 62 :: 64 word) = - (2 ^ 62)"
    by simp
  have prog: "run () [NewReader, DoWrite big, DoWrite big, DoWrite big]
     (\<lparr>w_data = [()], w_size = 1, wPos = 0, w_cycle = 0, w_closed = False, w_wg = 0\<rparr>, []) =
     Some (\<lparr>w_data = [()], w_size = 1, wPos = 0, w_cycle = - (2 ^ 62), w_closed = False,
            w_wg = 1\<rparr>,
           [\<lparr>rPos = 0, r_cycle = 0, block = False, autoSkip = False, r_closed = 0\<rparr>])"
    by (simp add: add_reader_def after_write_def Reader_def rewind_def wr laps
        word_sless_alt)
  show ?thesis
    apply (intro conjI)
        apply (simp add: New_def)
       apply (rule prog [unfolded big_def])
      apply (simp add: word_sless_alt)
     apply (simp add: Read.simps wait_for_data_def word_sless_alt)
    apply (simp add: ReadOne_def wait_for_data_def word_sless_alt)
    done
qed

section \<open>ReadOne and Read into one slot\<close>



section \<open>Reading back the first storage full\<close>

text \<open>What \<open>Write\<close> does to a writer that has not yet taken more than its storage holds.\<close>

lemma Write_holds:
  assumes "holds w xs" and "int (length xs) + int (length vs) \<le> w_size w"
  shows "\<exists>w'. Write w vs = Return w' (int (length vs)) None \<and> holds w' (xs @ vs)"
proof -
  have ok: "writer_ok w" and open_w: "\<not> w_closed w"
    and pre: "take (length xs) (w_data w) = xs"
    using assms(1) by (simp_all add: holds_def)
  have len: "int (length (w_data w)) = w_size w" and sz: "0 < w_size w"
    using ok by (simp_all add: writer_ok_def)
  have over: "oversized w vs = Some (w, vs)"
    using assms(2) by (simp add: oversized_def)
  consider (first) "w_cycle w = 0" "wPos w = int (length xs)"
    | (full) "w_cycle w = 1" "wPos w = 0" "int (length xs) = w_size w"
    using assms(1) by (auto simp: holds_def)
  then show ?thesis
  proof cases
    case full
    then have "vs = []" using assms(2) by simp
    moreover have "copy_in w [] = Some w"
      using full sz len by (simp add: copy_in_def go_slice_from_def go_copy_def)
    ultimately have "Write w vs = Return w (int (length vs)) None"
      using open_w over sz full by (simp add: Write_def rem_def)
    then show ?thesis using assms(1) \<open>vs = []\<close> by simp
  next
    case first
    have lt: "length xs < length (w_data w)" "length xs + length vs \<le> length (w_data w)"
      using ok first assms(2) len by (simp_all add: writer_ok_def)
    define d where "d = take (length xs) (w_data w) @ vs @ drop (length xs + length vs) (w_data w)"
    have cp: "take (nat (wPos w)) (w_data w) @ go_copy (drop (nat (wPos w)) (w_data w)) vs = d"
      using first lt by (simp add: d_def go_copy_short add.commute)
    have ld: "length d = length (w_data w)" and pd: "take (length xs + length vs) d = xs @ vs"
      using lt pre by (simp_all add: d_def)
    show ?thesis
    proof (cases "int (length vs) = w_size w - wPos w")
      case True
      then have "copy_in w vs = Some (w\<lparr>w_data := d, w_cycle := 1\<rparr>)"
        using first lt len cp by (simp add: copy_in_def go_slice_from_def)
      moreover have "rem (wPos w + int (length vs)) (w_size w) = 0"
        using True sz by (simp add: rem_def)
      ultimately have "Write w vs =
          Return (w\<lparr>w_data := d, w_cycle := 1, wPos := 0\<rparr>) (int (length vs)) None"
        using open_w over sz by (simp add: Write_def)
      moreover have "holds (w\<lparr>w_data := d, w_cycle := 1, wPos := 0\<rparr>) (xs @ vs)"
        using True first ok open_w ld pd by (simp add: holds_def writer_ok_def)
      ultimately show ?thesis by blast
    next
      case False
      then have less: "int (length vs) < w_size w - wPos w"
        using first assms(2) by simp
      then have "copy_in w vs = Some (w\<lparr>w_data := d\<rparr>)"
        using first lt len cp by (simp add: copy_in_def go_slice_from_def)
      moreover have "rem (wPos w + int (length vs)) (w_size w) = wPos w + int (length vs)"
        using less first sz by (simp add: rem_nonneg)
      ultimately have "Write w vs =
          Return (w\<lparr>w_data := d, wPos := wPos w + int (length vs)\<rparr>) (int (length vs)) None"
        using open_w over sz by (simp add: Write_def)
      moreover have "holds (w\<lparr>w_data := d, wPos := wPos w + int (length vs)\<rparr>) (xs @ vs)"
        using less first ok open_w ld pd by (simp add: holds_def writer_ok_def)
      ultimately show ?thesis by blast
    qed
  qed
qed

lemma write_all_holds:
  assumes "holds w xs" and "int (length xs) + int (length (concat vss)) \<le> w_size w"
  shows "\<exists>w'. write_all w vss = Some w' \<and> holds w' (xs @ concat vss) \<and> w_size w' = w_size w"
  using assms
proof (induction vss arbitrary: w xs)
  case Nil
  then show ?case by simp
next
  case (Cons vs vss)
  then have "int (length xs) + int (length vs) \<le> w_size w" by simp
  from Write_holds [OF Cons.prems(1) this] obtain w1
    where w1: "Write w vs = Return w1 (int (length vs)) None" "holds w1 (xs @ vs)" by blast
  have sz: "w_size w1 = w_size w"
    using Write_Return_fields [OF _ w1(1)] Cons.prems(1) by (simp add: holds_def writer_ok_def)
  then have "int (length (xs @ vs)) + int (length (concat vss)) \<le> w_size w1"
    using Cons.prems(2) by simp
  from Cons.IH [OF w1(2) this] sz w1(1) show ?case by simp
qed

text \<open>
  What \<open>Read\<close> does for a reader of such a writer: with a destination that is not empty
  it delivers the next elements, as many as fit and are there, and it reports \<open>EOF\<close> only
  with the last of them.
\<close>

lemma Read_delivers:
  assumes "holds w xs" and "delivered w r g" and "g \<le> length xs" and "p \<noteq> []"
  shows "\<exists>r' p' k e. Read w r p = Some (Return (r', p') (int k) e) \<and>
           take k p' = take k (drop g xs) \<and> delivered w r' (g + k) \<and> g + k \<le> length xs \<and>
           (e = None \<and> 0 < k \<or> e = Some EOF \<and> g + k = length xs)"
proof -
  have ok: "writer_ok w" and pre: "take (length xs) (w_data w) = xs"
    using assms(1) by (simp_all add: holds_def)
  have len: "int (length (w_data w)) = w_size w" and sz: "0 < w_size w"
    using ok by (simp_all add: writer_ok_def)
  have open_r: "r_closed r = 0" and nb: "\<not> block r"
    using assms(2) by (simp_all add: delivered_def)
  have wt: "wait_for_data w r' = Some r'" if "\<not> block r'" for r'
    using that by (simp add: wait_for_data_def)
  have "length (take (length xs) (w_data w)) = length xs"
    using pre by simp
  then have lx: "length xs \<le> length (w_data w)"
    by simp
  have part: "take k (drop g (w_data w)) = take k (drop g xs)" if "g + k \<le> length xs" for k
  proof -
    have "take k (drop g xs) = take k (drop g (take (length xs) (w_data w)))"
      using pre by simp
    also have "\<dots> = take k (take (length xs - g) (drop g (w_data w)))"
      by (simp add: drop_take)
    also have "\<dots> = take k (drop g (w_data w))"
      using that by (simp add: min_def)
    finally show ?thesis by simp
  qed
  consider (first) "w_cycle w = 0" "wPos w = int (length xs)"
    | (full) "w_cycle w = 1" "wPos w = 0" "int (length xs) = w_size w"
    using assms(1) by (auto simp: holds_def)
  then show ?thesis
  proof cases
    case first
    then have lt: "int (length xs) < w_size w" using ok by (simp add: writer_ok_def)
    then have r: "r_cycle r = 0" "rPos r = int g"
      using assms(2,3) by (auto simp: delivered_def)
    define k where "k = min (length p) (length xs - g)"
    have m: "int k = min (int (length p)) (wPos w - rPos r)"
      using first r assms(3) unfolding k_def by linarith
    have gk: "g + k \<le> length xs" using assms(3) by (simp add: k_def)
    have rd: "Read w r p =
        Some (Return (r\<lparr>rPos := rPos r + int k\<rparr>,
                take k (drop g (w_data w)) @ drop k p) (int k)
          (if rPos r = wPos w then Some EOF else None))"
      using Read_current_data [OF ok open_r _ _ wt [OF nb] _ _ m] first r assms(3)
      by (simp add: word_sless_alt)
    have "length (take k (drop g (w_data w))) = k"
      using gk lx by simp
    then have "take k (take k (drop g (w_data w)) @ drop k p) = take k (drop g xs)"
      using part [OF gk] by simp
    moreover have "delivered w (r\<lparr>rPos := rPos r + int k\<rparr>) (g + k)"
      using assms(2) r gk lt by (simp add: delivered_def)
    moreover have "0 < k" if "rPos r \<noteq> wPos w"
      using that first r assms(3,4) by (simp add: k_def)
    moreover have "g + k = length xs" if "rPos r = wPos w"
      using that first r by (simp add: k_def)
    ultimately show ?thesis
      using rd gk by auto
  next
    case full
    have data: "w_data w = xs"
      using pre full len by simp
    consider (behind) "r_cycle r = 0" "rPos r = int g" "int g < w_size w"
      | (caught_up) "r_cycle r = 1" "rPos r = 0" "int g = w_size w"
      using assms(2) by (auto simp: delivered_def)
    then show ?thesis
    proof cases
      case caught_up
      have "Read w r p = Some (Return (r, p) 0 (Some EOF))"
        using Read_current_data [OF ok open_r _ _ wt [OF nb], of 0 p] full caught_up
        by (simp add: word_sless_alt)
      then show ?thesis
        using assms(2) full caught_up by (intro exI [of _ r] exI [of _ p] exI [of _ 0]) simp
    next
      case behind
      show ?thesis
      proof (cases "int (length p) \<le> w_size w - rPos r")
        case True
        define r' where "r' = (if rPos r + int (length p) \<ge> w_size w
             then wrapped (r\<lparr>rPos := rPos r + int (length p)\<rparr>)
             else r\<lparr>rPos := rPos r + int (length p)\<rparr>)"
        have gk: "g + length p \<le> length xs"
          using True behind full by simp
        have rd: "Read w r p =
            Some (Return (r', take (length p) (drop g (w_data w))) (int (length p)) None)"
          using Read_tail [OF ok open_r _ _ _ True] full behind by (simp add: r'_def)
        have "length (take (length p) (drop g (w_data w))) = length p"
          using gk lx by simp
        then have "take (length p) (take (length p) (drop g (w_data w))) =
            take (length p) (drop g xs)"
          using part [OF gk] by simp
        moreover have "delivered w r' (g + length p)"
          using assms(2) behind True full by (auto simp: delivered_def r'_def wrapped_def)
        ultimately show ?thesis
          using rd gk assms(4) by auto
      next
        case False
        define k where "k = length xs - g"
        have k: "w_size w - int g = int k" "0 < k" "g + k = length xs"
          using behind full by (simp_all add: k_def)
        have nk: "nat (w_size w - int g) = k"
          using k(1) by simp
        have same: "r\<lparr>rPos := 0, r_cycle := w_cycle w, block := False\<rparr> =
            r\<lparr>rPos := 0, r_cycle := w_cycle w\<rparr>"
          using nb by simp
        have rd: "Read w r p =
            Some (Return (r\<lparr>rPos := 0, r_cycle := w_cycle w\<rparr>,
                    drop g (w_data w) @ drop k p) (int k) (Some EOF))"
          using Read_across_wrap [OF ok open_r _ _ _ _ _ _ refl, of p] full behind False nb
          by (simp add: nk k(1) same word_sless_alt)
        have "take k (drop g (w_data w) @ drop k p) = take k (drop g xs)"
          using k data by simp
        moreover have "delivered w (r\<lparr>rPos := 0, r_cycle := w_cycle w\<rparr>) (g + k)"
          using assms(2) full k by (simp add: delivered_def)
        ultimately show ?thesis
          using rd k by auto
      qed
    qed
  qed
qed

lemma read_until_error_delivers:
  assumes "holds w xs" and "delivered w r g" and "g \<le> length xs"
    and "\<forall>p \<in> set ps. p \<noteq> []" and "length xs - g < length ps"
  shows "read_until_error w r ps = Some (drop g xs, EOF)"
  using assms(2-)
proof (induction ps arbitrary: r g)
  case Nil
  then show ?case by simp
next
  case (Cons p ps)
  have "p \<noteq> []" using Cons.prems(3) by simp
  from Read_delivers [OF assms(1) Cons.prems(1,2) this] obtain r' p' k e
    where rd: "Read w r p = Some (Return (r', p') (int k) e)"
      and got: "take k p' = take k (drop g xs)"
      and at: "delivered w r' (g + k)" and le: "g + k \<le> length xs"
      and e: "e = None \<and> 0 < k \<or> e = Some EOF \<and> g + k = length xs"
    by blast
  from e show ?case
  proof
    assume more: "e = None \<and> 0 < k"
    then have "length xs - (g + k) < length ps"
      using Cons.prems(4) le by auto
    moreover have "\<forall>p \<in> set ps. p \<noteq> []" using Cons.prems(3) by simp
    ultimately have "read_until_error w r' ps = Some (drop (g + k) xs, EOF)"
      using Cons.IH [OF at le] by simp
    moreover have "take k (drop g xs) @ drop (g + k) xs = drop g xs"
      by (metis add.commute append_take_drop_id drop_drop)
    ultimately show ?thesis
      using rd more got by simp
  next
    assume last: "e = Some EOF \<and> g + k = length xs"
    then have "take k (drop g xs) = drop g xs" by auto
    then show ?thesis
      using rd last got by simp
  qed
qed

text \<open>
  Claim C4: for every capacity \<open>C\<close>, a reader made by \<open>Reader()\<close> on the new writer, and
  writes of total length at most \<open>C\<close> with no read in between, calling \<open>Read\<close> again and
  again afterwards returns exactly the values written, in their order. The destinations
  may differ from call to call but are not empty; the loop ends with \<open>EOF\<close> after at most
  one call more than there are values.
\<close>

theorem C4_read_back_what_was_written:
  assumes "New zero C = Inr w0" and "Reader w0 = Some (w1, r)"
    and "int (length (concat vss)) \<le> C"
    and "\<forall>p \<in> set ps. p \<noteq> []" and "length (concat vss) < length ps"
  shows "\<exists>w. write_all w1 vss = Some w \<and> read_until_error w r ps = Some (concat vss, EOF)"
proof -
  have w0: "0 < C" "w0 = \<lparr>w_data = replicate (nat C) zero, w_size = C, wPos = 0, w_cycle = 0,
      w_closed = False, w_wg = 0\<rparr>"
    using assms(1) by (auto simp: New_def split: if_splits)
  have w1: "w1 = w0\<lparr>w_wg := 1\<rparr>"
    and r: "r = \<lparr>rPos = 0, r_cycle = 0, block = False, autoSkip = False, r_closed = 0\<rparr>"
    using assms(2) w0 by (auto simp: Reader_def rewind_def word_sless_alt)
  have "holds w1 []"
    using w0 w1 by (simp add: holds_def writer_ok_def)
  moreover have "int (length ([]::'a list)) + int (length (concat vss)) \<le> w_size w1"
    using assms(3) w0 w1 by simp
  ultimately obtain w where w: "write_all w1 vss = Some w" "holds w (concat vss)"
      "w_size w = w_size w1"
    using write_all_holds [of w1 "[]" vss] by auto
  have "delivered w r 0"
    using w(3) w0 w1 r by (simp add: delivered_def)
  then have "read_until_error w r ps = Some (drop 0 (concat vss), EOF)"
    using read_until_error_delivers [OF w(2) _ _ assms(4)] assms(5) by simp
  then show ?thesis using w(1) by simp
qed

theorem C4_read_back_what_was_written_witness:
  "New (CHR 0x00) 10 =
     Inr \<lparr>w_data = replicate 10 (CHR 0x00), w_size = 10, wPos = 0, w_cycle = 0,
          w_closed = False, w_wg = 0\<rparr> \<and>
   Reader \<lparr>w_data = replicate 10 (CHR 0x00), w_size = 10, wPos = 0, w_cycle = 0,
           w_closed = False, w_wg = 0\<rparr> =
     Some (\<lparr>w_data = replicate 10 (CHR 0x00), w_size = 10, wPos = 0, w_cycle = 0,
            w_closed = False, w_wg = 1\<rparr>,
           \<lparr>rPos = 0, r_cycle = 0, block = False, autoSkip = False, r_closed = 0\<rparr>) \<and>
   write_all \<lparr>w_data = replicate 10 (CHR 0x00), w_size = 10, wPos = 0, w_cycle = 0,
              w_closed = False, w_wg = 1\<rparr> [''hel'', ''lo'', [], ''world''] =
     Some \<lparr>w_data = ''helloworld'', w_size = 10, wPos = 0, w_cycle = 1,
           w_closed = False, w_wg = 1\<rparr> \<and>
   read_until_error \<lparr>w_data = ''helloworld'', w_size = 10, wPos = 0, w_cycle = 1,
                     w_closed = False, w_wg = 1\<rparr>
       \<lparr>rPos = 0, r_cycle = 0, block = False, autoSkip = False, r_closed = 0\<rparr>
       (replicate 11 ''...'') =
     Some (''helloworld'', EOF)"
proof -
  have new: "New (CHR 0x00) 10 =
     Inr \<lparr>w_data = replicate 10 (CHR 0x00), w_size = 10, wPos = 0, w_cycle = 0,
          w_closed = False, w_wg = 0\<rparr>"
    by (simp add: New_def)
  have mk: "Reader \<lparr>w_data = replicate 10 (CHR 0x00), w_size = 10, wPos = 0, w_cycle = 0,
           w_closed = False, w_wg = 0\<rparr> =
     Some (\<lparr>w_data = replicate 10 (CHR 0x00), w_size = 10, wPos = 0, w_cycle = 0,
            w_closed = False, w_wg = 1\<rparr>,
           \<lparr>rPos = 0, r_cycle = 0, block = False, autoSkip = False, r_closed = 0\<rparr>)"
    by (simp add: Reader_def rewind_def word_sless_alt)
  have wr: "write_all \<lparr>w_data = replicate 10 (CHR 0x00), w_size = 10, wPos = 0, w_cycle = 0,
              w_closed = False, w_wg = 1\<rparr> [''hel'', ''lo'', [], ''world''] =
     Some \<lparr>w_data = ''helloworld'', w_size = 10, wPos = 0, w_cycle = 1,
           w_closed = False, w_wg = 1\<rparr>"
    by (simp add: Write_def oversized_def copy_in_def go_slice_from_def go_copy_def rem_def)
  show ?thesis
    using C4_read_back_what_was_written [OF new mk, of "[''hel'', ''lo'', [], ''world'']"
        "replicate 11 ''...''"] new mk wr
    by simp
qed

end
